theory Spec2Isabelle
  imports Main "HOL-Library.Multiset"
begin

section \<open>The Images page of image-watch: live feed, reconnect and ordered store\<close>

text \<open>
  The script of the Images page (\<^verbatim>\<open>src/unnamed/part_002\<close>) keeps a handful of
  module-level variables and registers four listeners on every WebSocket it creates.
  All code runs on the single JavaScript thread: a listener, a timer callback or a
  promise continuation runs to its end before the next one starts. The model follows
  that shape: the variables are the fields of a record, every listener and callback is
  a function from the record to the record, and the browser's event loop is a step
  function that picks one enabled event.
\<close>

subsection \<open>Data\<close>

text \<open>
  An entry of the gallery, \<^verbatim>\<open>{ name, timestamp }\<close>. The inbound schema gives the
  timestamp as a JSON number; the script only ever compares two timestamps with
  \<^verbatim>\<open>></\<close>, so the model takes them from any linear order.
\<close>

record 't item =
  name :: string
  timestamp :: 't

text \<open>
  The decoded message \<^verbatim>\<open>{ added?: [ [name, timestamp], ... ], removed?: [name, ...] }\<close>.
  Both fields are optional: \<open>None\<close> is an absent field.
\<close>

record 't delta =
  removed :: "string list option"
  added :: "(string \<times> 't) list option"

datatype js_error = SyntaxError | TypeError

text \<open>What a handler did: it returned, or it threw and left the variables as they were
  at the throw.\<close>

datatype 'a outcome = Returned 'a | Thrown js_error 'a

fun state_after :: "'a outcome \<Rightarrow> 'a" where
  "state_after (Returned s) = s"
| "state_after (Thrown e s) = s"

text \<open>What \<^verbatim>\<open>fetch("/backend/keepalive")\<close> does: it resolves to a response with a
  status, or it rejects (no response at all).\<close>

datatype fetch_outcome = Response nat | NetworkFailure

text \<open>The two callbacks the script hands to \<^verbatim>\<open>setTimeout\<close>, and the two
  continuations it attaches to \<^verbatim>\<open>keepalive()\<close> with \<^verbatim>\<open>.then\<close>.\<close>

datatype timer_callback = Reconnect | KeepaliveTick

datatype probe_then = AfterDisconnect | AfterKeepaliveTick

text \<open>
  The module-level variables (\<open>images\<close> to \<open>connectScheduled\<close>), and what the script has
  handed to the browser or to its callers: the timers set and not yet fired (callback and
  delay, in the order of the \<^verbatim>\<open>setTimeout\<close> calls), the \<^verbatim>\<open>keepalive()\<close> promises not
  yet settled (with their continuation), and counters of the calls made to
  \<^verbatim>\<open>new WebSocket\<close>, \<^verbatim>\<open>fetch\<close>, \<^verbatim>\<open>removeAuthToken\<close> and \<^verbatim>\<open>verifyFrontendHash\<close>.
  Sockets are numbered in the order of their construction; \<open>ws\<close> is the number of the
  one the variable \<^verbatim>\<open>ws\<close> holds.
\<close>

record 't client =
  images :: "'t item list"
  connected :: bool
  dummy_images :: "'t item list"
  ws :: "nat option"
  reconnectTimeout :: nat
  connectScheduled :: bool
  timers :: "(timer_callback \<times> nat) list"
  probes :: "probe_then list"
  sockets :: nat
  fetches :: nat
  removeAuthToken_calls :: nat
  verifyFrontendHash_calls :: nat

definition originalReconnectTimeout :: nat where
  "originalReconnectTimeout = 500"

definition maxReconnectTimeout :: nat where
  "maxReconnectTimeout = 3000"

definition keepaliveInterval :: nat where
  "keepaliveInterval = 60000"

subsection \<open>The ordered store\<close>

text \<open>
  \<^verbatim>\<open>let i = 0; while (i < dummy_images.length && dummy_images[i].timestamp > img.timestamp) i++;\<close>
\<close>

function scan :: "('t::linorder) item list \<Rightarrow> 't \<Rightarrow> nat \<Rightarrow> nat" where
  "scan xs t i = (if i < length xs \<and> timestamp (xs ! i) > t then scan xs t (Suc i) else i)"
  by pat_completeness auto
termination
  by (relation "measure (\<lambda>(xs, t, i). length xs - i)") auto

declare scan.simps [simp del]

text \<open>
  \<^verbatim>\<open>dummy_images = [...dummy_images.slice(0, i), img, ...dummy_images.slice(i)]\<close>
\<close>

definition insertSorted :: "('t::linorder) item \<Rightarrow> 't item list \<Rightarrow> 't item list" where
  "insertSorted img xs = (let i = scan xs (timestamp img) 0 in take i xs @ [img] @ drop i xs)"

text \<open>
  The body of the message listener after \<^verbatim>\<open>JSON.parse\<close>: the filter runs only when
  \<^verbatim>\<open>data.removed\<close> is there, the loop runs over \<^verbatim>\<open>data.added ?? []\<close>.
\<close>

definition apply_removed :: "string list option \<Rightarrow> 't item list \<Rightarrow> 't item list" where
  "apply_removed rs xs =
     (case rs of None \<Rightarrow> xs | Some r \<Rightarrow> filter (\<lambda>img. name img \<notin> set r) xs)"

text \<open>\<^verbatim>\<open>data.added ?? []\<close>\<close>

definition or_empty :: "'a list option \<Rightarrow> 'a list" where
  "or_empty as = (case as of None \<Rightarrow> [] | Some a \<Rightarrow> a)"

definition apply_added :: "(string \<times> ('t::linorder)) list option \<Rightarrow> 't item list \<Rightarrow> 't item list" where
  "apply_added as xs =
     fold (\<lambda>(n, t) acc. insertSorted \<lparr>name = n, timestamp = t\<rparr> acc) (or_empty as) xs"

definition apply_delta :: "('t::linorder) delta \<Rightarrow> 't item list \<Rightarrow> 't item list" where
  "apply_delta d xs = apply_added (added d) (apply_removed (removed d) xs)"

text \<open>
  The message listener. Its argument is what \<^verbatim>\<open>JSON.parse(event.data)\<close> does on the
  frame: it throws a \<^verbatim>\<open>SyntaxError\<close> on text that is not JSON, or it gives the decoded
  object. The listener has no \<^verbatim>\<open>try\<close>, so the error leaves it. Decoded objects are
  taken to follow the inbound schema.
\<close>

definition on_message :: "('t::linorder) client \<Rightarrow> js_error + 't delta \<Rightarrow> 't client outcome" where
  "on_message st parsed =
     (case parsed of
        Inl err \<Rightarrow> Thrown err st
      | Inr data \<Rightarrow>
          (let d = apply_delta data (dummy_images st)
           in Returned (st\<lparr>dummy_images := d, images := d\<rparr>)))"

subsection \<open>The liveness probe\<close>

text \<open>
  \<^verbatim>\<open>await fetch(...)\<close> followed by \<^verbatim>\<open>response.status\<close>: a rejected fetch throws at
  the \<^verbatim>\<open>await\<close>.
\<close>

definition await_fetch_status :: "fetch_outcome \<Rightarrow> js_error + nat" where
  "await_fetch_status out = (case out of Response status \<Rightarrow> Inr status | NetworkFailure \<Rightarrow> Inl TypeError)"

text \<open>
  \<^verbatim>\<open>async function keepalive()\<close>: the whole body is inside \<^verbatim>\<open>try\<close>, and the
  \<^verbatim>\<open>catch\<close> returns \<^verbatim>\<open>null\<close> (\<open>None\<close>). The result type leaves room for a throw
  (\<open>Inl\<close>), a rejected promise.
\<close>

definition keepalive :: "fetch_outcome \<Rightarrow> js_error + nat option" where
  "keepalive out =
     (case await_fetch_status out of
        Inr status \<Rightarrow> Inr (Some status)
      | Inl err \<Rightarrow> Inr None)"

text \<open>The synchronous part of a call \<^verbatim>\<open>keepalive().then(k)\<close>: the fetch is issued and
  the continuation waits for the promise.\<close>

definition keepalive_then :: "probe_then \<Rightarrow> 't client \<Rightarrow> 't client" where
  "keepalive_then k st = st\<lparr>fetches := Suc (fetches st), probes := probes st @ [k]\<rparr>"

subsection \<open>The connection manager\<close>

text \<open>\<^verbatim>\<open>connect()\<close>: a new socket replaces the one in \<^verbatim>\<open>ws\<close>; the four listeners are
  added to it. Nothing is removed from, or closed on, the socket that \<^verbatim>\<open>ws\<close> held.\<close>

definition connect :: "'t client \<Rightarrow> 't client" where
  "connect st = st\<lparr>ws := Some (sockets st), sockets := Suc (sockets st)\<rparr>"

definition removeAuthToken :: "'t client \<Rightarrow> 't client" where
  "removeAuthToken st = st\<lparr>removeAuthToken_calls := Suc (removeAuthToken_calls st)\<rparr>"

definition verifyFrontendHash :: "'t client \<Rightarrow> 't client" where
  "verifyFrontendHash st = st\<lparr>verifyFrontendHash_calls := Suc (verifyFrontendHash_calls st)\<rparr>"

definition scheduleReconnect :: "'t client \<Rightarrow> 't client" where
  "scheduleReconnect st =
     (if connectScheduled st then st
      else st\<lparr>connectScheduled := True,
              timers := timers st @ [(Reconnect, reconnectTimeout st)],
              reconnectTimeout := min (reconnectTimeout st * 2) maxReconnectTimeout\<rparr>)"

text \<open>The callback of the timer set by \<^verbatim>\<open>scheduleReconnect\<close>.\<close>

definition reconnect_timer :: "'t client \<Rightarrow> 't client" where
  "reconnect_timer st = connect (st\<lparr>connectScheduled := False\<rparr>)"

definition scheduleKeepalive :: "'t client \<Rightarrow> 't client" where
  "scheduleKeepalive st =
     (if connected st then st\<lparr>timers := timers st @ [(KeepaliveTick, keepaliveInterval)]\<rparr>
      else st)"

text \<open>The callback of the timer set by \<^verbatim>\<open>scheduleKeepalive\<close>; it does not look at
  \<^verbatim>\<open>connected\<close>.\<close>

definition keepalive_timer :: "'t client \<Rightarrow> 't client" where
  "keepalive_timer st = keepalive_then AfterKeepaliveTick st"

text \<open>The continuation of that callback's probe. \<^verbatim>\<open>.then\<close> has one argument: a
  rejected promise would run nothing.\<close>

definition after_keepalive_tick :: "fetch_outcome \<Rightarrow> 't client \<Rightarrow> 't client" where
  "after_keepalive_tick out st =
     (case keepalive out of
        Inr result \<Rightarrow> (if result = Some 401 then removeAuthToken st else scheduleKeepalive st)
      | Inl err \<Rightarrow> st)"

definition closeAndErrorHandler :: "'t client \<Rightarrow> 't client" where
  "closeAndErrorHandler st = keepalive_then AfterDisconnect (st\<lparr>connected := False\<rparr>)"

definition after_disconnect :: "fetch_outcome \<Rightarrow> 't client \<Rightarrow> 't client" where
  "after_disconnect out st =
     (case keepalive out of
        Inr result \<Rightarrow> (if result = Some 401 then removeAuthToken st else scheduleReconnect st)
      | Inl err \<Rightarrow> st)"

text \<open>The \<^verbatim>\<open>open\<close> listener.\<close>

definition on_open :: "'t client \<Rightarrow> 't client" where
  "on_open st =
     scheduleKeepalive (verifyFrontendHash
       (st\<lparr>connected := True, dummy_images := [], reconnectTimeout := originalReconnectTimeout\<rparr>))"

subsection \<open>The event loop\<close>

text \<open>
  The variables as the script initialises them, and the state once the script has run
  to its last line, \<^verbatim>\<open>connect()\<close>.
\<close>

definition initial :: "'t client" where
  "initial =
     \<lparr>images = [], connected = False, dummy_images = [], ws = None,
      reconnectTimeout = originalReconnectTimeout, connectScheduled = False,
      timers = [], probes = [], sockets = 0, fetches = 0,
      removeAuthToken_calls = 0, verifyFrontendHash_calls = 0\<rparr>"

definition page_load :: "'t client" where
  "page_load = connect initial"

text \<open>
  What the browser can deliver: an event of one of the sockets constructed so far (the
  message event with what \<^verbatim>\<open>JSON.parse\<close> does on its data), the firing of a pending
  timer, the settling of a pending probe's fetch. Timers and probes are named by their
  position in the pending lists. The order of events is left open, so a property of all
  runs holds for every schedule the browser can choose.
\<close>

datatype 't event =
    SockOpen nat
  | SockClose nat
  | SockError nat
  | SockMessage nat "js_error + 't delta"
  | TimerFires nat
  | ProbeSettles nat fetch_outcome

definition remove_at :: "nat \<Rightarrow> 'a list \<Rightarrow> 'a list" where
  "remove_at i xs = take i xs @ drop (Suc i) xs"

definition handle :: "('t::linorder) client \<Rightarrow> 't event \<Rightarrow> 't client outcome" where
  "handle st ev =
     (case ev of
        SockOpen s \<Rightarrow> Returned (if s < sockets st then on_open st else st)
      | SockClose s \<Rightarrow> Returned (if s < sockets st then closeAndErrorHandler st else st)
      | SockError s \<Rightarrow> Returned (if s < sockets st then closeAndErrorHandler st else st)
      | SockMessage s parsed \<Rightarrow> (if s < sockets st then on_message st parsed else Returned st)
      | TimerFires i \<Rightarrow>
          Returned
            (if i < length (timers st) then
               (case fst (timers st ! i) of
                  Reconnect \<Rightarrow> reconnect_timer (st\<lparr>timers := remove_at i (timers st)\<rparr>)
                | KeepaliveTick \<Rightarrow> keepalive_timer (st\<lparr>timers := remove_at i (timers st)\<rparr>))
             else st)
      | ProbeSettles i out \<Rightarrow>
          Returned
            (if i < length (probes st) then
               (case probes st ! i of
                  AfterDisconnect \<Rightarrow> after_disconnect out (st\<lparr>probes := remove_at i (probes st)\<rparr>)
                | AfterKeepaliveTick \<Rightarrow> after_keepalive_tick out (st\<lparr>probes := remove_at i (probes st)\<rparr>))
             else st))"

text \<open>An error thrown by a listener is reported by the browser; the loop goes on with
  the variables as the listener left them.\<close>

definition step :: "('t::linorder) client \<Rightarrow> 't event \<Rightarrow> 't client" where
  "step st ev = state_after (handle st ev)"

definition run :: "('t::linorder) client \<Rightarrow> 't event list \<Rightarrow> 't client" where
  "run st evs = foldl step st evs"

subsection \<open>Properties of the store, as predicates\<close>

text \<open>Sorted by descending timestamp: of two adjacent items, the earlier one has the
  timestamp that is greater or equal.\<close>

fun descending :: "('t::linorder) item list \<Rightarrow> bool" where
  "descending [] = True"
| "descending [a] = True"
| "descending (a # b # xs) = (timestamp a \<ge> timestamp b \<and> descending (b # xs))"

text \<open>
  A sequence of deltas adds only fresh names to the collection \<open>xs\<close>: the names a delta
  adds differ from each other and from the names of the items its removals keep, and
  the same holds for the deltas after it on the collection it leaves.
\<close>

fun adds_fresh :: "('t::linorder) item list \<Rightarrow> 't delta list \<Rightarrow> bool" where
  "adds_fresh xs [] = True"
| "adds_fresh xs (d # ds) =
     (distinct (map fst (or_empty (added d))) \<and>
      list_all (\<lambda>n. n \<notin> set (map name (apply_removed (removed d) xs))) (map fst (or_empty (added d))) \<and>
      adds_fresh (apply_delta d xs) ds)"

subsection \<open>Observations on the connection manager\<close>

text \<open>The reconnect timers, and the keepalive timers, that are pending.\<close>

definition reconnects_pending :: "'t client \<Rightarrow> nat" where
  "reconnects_pending st = length (filter (\<lambda>t. fst t = Reconnect) (timers st))"

definition keepalive_timers :: "'t client \<Rightarrow> nat" where
  "keepalive_timers st = length (filter (\<lambda>t. fst t = KeepaliveTick) (timers st))"

fun is_open :: "'t event \<Rightarrow> bool" where
  "is_open (SockOpen s) = True"
| "is_open ev = False"

fun is_message :: "'t event \<Rightarrow> bool" where
  "is_message (SockMessage s parsed) = True"
| "is_message ev = False"

text \<open>
  One disconnect, seen from the event loop: the newest socket delivers \<^verbatim>\<open>close\<close>, then
  the fetch of the probe this starts settles with \<open>out\<close>. The probe is the last one
  of the pending list.
\<close>

definition disconnect :: "('t::linorder) client \<Rightarrow> fetch_outcome \<Rightarrow> 't client" where
  "disconnect st out =
     run st [SockClose (sockets st - 1), ProbeSettles (length (probes st)) out]"

text \<open>
  One failed reconnect: a disconnect, then the timer it has set fires and \<^verbatim>\<open>connect()\<close>
  runs; the socket this creates never opens. The timer is the last one of the pending
  list.
\<close>

definition failed_reconnect :: "('t::linorder) client \<Rightarrow> fetch_outcome \<Rightarrow> 't client" where
  "failed_reconnect st out = step (disconnect st out) (TimerFires (length (timers st)))"

definition failed_reconnects :: "('t::linorder) client \<Rightarrow> fetch_outcome list \<Rightarrow> 't client" where
  "failed_reconnects st outs = foldl failed_reconnect st outs"

subsection \<open>The liveness result of the specification\<close>

text \<open>
  The script has no three-valued result: \<^verbatim>\<open>keepalive()\<close> gives the status or
  \<^verbatim>\<open>null\<close>, and both callers compare it with 401. The specification's reading of a
  probe, in its words: status 200 is \<open>Authorized\<close>, status 401 is \<open>Unauthorized\<close>, any
  other status or a thrown transport error is \<open>Unknown\<close>; \<open>Unauthorized\<close> terminates the
  session, the other two proceed to reconnect.
\<close>

datatype liveness = Authorized | Unauthorized | Unknown

definition spec_liveness :: "fetch_outcome \<Rightarrow> liveness" where
  "spec_liveness out =
     (case out of
        Response status \<Rightarrow>
          (if status = 200 then Authorized else if status = 401 then Unauthorized else Unknown)
      | NetworkFailure \<Rightarrow> Unknown)"

datatype decision = TerminateSession | ProceedToReconnect

definition spec_decision :: "liveness \<Rightarrow> decision" where
  "spec_decision l = (case l of Unauthorized \<Rightarrow> TerminateSession | Authorized \<Rightarrow> ProceedToReconnect | Unknown \<Rightarrow> ProceedToReconnect)"

text \<open>The flag \<^verbatim>\<open>connectScheduled\<close> says whether a reconnect timer is pending, and
  there is never more than one.\<close>

definition flag_matches_timer :: "'t client \<Rightarrow> bool" where
  "flag_matches_timer st = (reconnects_pending st = (if connectScheduled st then 1 else 0))"

section \<open>Proofs\<close>

subsection \<open>The scan and the insertion\<close>

lemma descending_sorted_wrt:
  "descending xs = sorted_wrt (\<lambda>a b. timestamp a \<ge> timestamp b) xs"
proof (induction xs rule: descending.induct)
  case (3 a b xs)
  then show ?case by (auto intro: order_trans)
qed simp_all

lemma scan_takeWhile:
  "i \<le> length xs \<Longrightarrow> scan xs t i = i + length (takeWhile (\<lambda>x. timestamp x > t) (drop i xs))"
proof (induction xs t i rule: scan.induct)
  case (1 xs t i)
  show ?case
  proof (cases "i < length xs \<and> timestamp (xs ! i) > t")
    case True
    then have d: "drop i xs = xs ! i # drop (Suc i) xs"
      by (simp add: Cons_nth_drop_Suc)
    from True 1 have "scan xs t (Suc i) = Suc i + length (takeWhile (\<lambda>x. timestamp x > t) (drop (Suc i) xs))"
      by simp
    with True d show ?thesis
      by (subst scan.simps) simp
  next
    case False
    show ?thesis
    proof (cases "i < length xs")
      case True
      with False have "\<not> timestamp (xs ! i) > t" by simp
      moreover from True have "drop i xs = xs ! i # drop (Suc i) xs"
        by (simp add: Cons_nth_drop_Suc)
      ultimately show ?thesis using False
        by (subst scan.simps) simp
    next
      case False
      with 1 have "drop i xs = []" by simp
      with False show ?thesis
        by (subst scan.simps) simp
    qed
  qed
qed

lemma insertSorted_takeWhile:
  "insertSorted img xs =
     takeWhile (\<lambda>x. timestamp x > timestamp img) xs @ img # dropWhile (\<lambda>x. timestamp x > timestamp img) xs"
  by (simp add: insertSorted_def scan_takeWhile takeWhile_eq_take [symmetric] dropWhile_eq_drop [symmetric])

lemma mset_insertSorted: "mset (insertSorted img xs) = add_mset img (mset xs)"
proof -
  have "mset (takeWhile (\<lambda>x. timestamp x > timestamp img) xs @ dropWhile (\<lambda>x. timestamp x > timestamp img) xs) = mset xs"
    by simp
  then show ?thesis
    unfolding insertSorted_takeWhile by (simp del: takeWhile_dropWhile_id)
qed

lemma descending_insertSorted:
  assumes "descending xs"
  shows "descending (insertSorted img xs)"
proof -
  let ?P = "\<lambda>x. timestamp x > timestamp img"
  let ?R = "\<lambda>a b::'a item. timestamp a \<ge> timestamp b"
  have s: "sorted_wrt ?R (takeWhile ?P xs @ dropWhile ?P xs)"
    using assms by (simp add: descending_sorted_wrt)
  have before: "\<forall>x \<in> set (takeWhile ?P xs). timestamp x \<ge> timestamp img"
    by (auto dest: set_takeWhileD)
  have after: "\<forall>y \<in> set (dropWhile ?P xs). timestamp img \<ge> timestamp y"
  proof (cases "dropWhile ?P xs")
    case Nil
    show ?thesis unfolding Nil by simp
  next
    case (Cons z zs)
    then have "\<not> ?P z" by (metis hd_dropWhile list.distinct(1) list.sel(1))
    moreover from s Cons have "\<forall>y \<in> set zs. timestamp z \<ge> timestamp y"
      by (simp add: sorted_wrt_append)
    ultimately show ?thesis using Cons by (auto intro: order_trans)
  qed
  from s before after show ?thesis
    unfolding insertSorted_takeWhile descending_sorted_wrt
    by (simp add: sorted_wrt_append del: takeWhile_dropWhile_id)
qed


lemma descending_apply_removed: "descending xs \<Longrightarrow> descending (apply_removed rs xs)"
  by (cases rs) (simp_all add: apply_removed_def descending_sorted_wrt sorted_wrt_filter)

lemma descending_fold_insertSorted:
  "descending xs \<Longrightarrow>
   descending (fold (\<lambda>(n, t) acc. insertSorted \<lparr>name = n, timestamp = t\<rparr> acc) as xs)"
  by (induction as arbitrary: xs) (auto simp: descending_insertSorted)

lemma descending_apply_delta: "descending xs \<Longrightarrow> descending (apply_delta d xs)"
  by (simp add: apply_delta_def apply_added_def descending_fold_insertSorted descending_apply_removed)

lemma descending_fold_apply_delta: "descending xs \<Longrightarrow> descending (fold apply_delta ds xs)"
  by (induction ds arbitrary: xs) (simp_all add: descending_apply_delta)

lemma mset_fold_insertSorted:
  "mset (fold (\<lambda>(n, t) acc. insertSorted \<lparr>name = n, timestamp = t\<rparr> acc) as xs) =
   mset xs + mset (map (\<lambda>(n, t). \<lparr>name = n, timestamp = t\<rparr>) as)"
  by (induction as arbitrary: xs) (auto simp: mset_insertSorted)

lemma mset_names_apply_delta:
  "mset (map name (apply_delta d xs)) =
   mset (map name (apply_removed (removed d) xs)) + mset (map fst (or_empty (added d)))"
proof -
  have n: "name \<circ> (\<lambda>(n, t). \<lparr>name = n, timestamp = t\<rparr>) = (fst :: string \<times> 'a \<Rightarrow> string)"
    by (auto simp: fun_eq_iff)
  have m: "mset (apply_delta d xs) =
        mset (apply_removed (removed d) xs) +
        mset (map (\<lambda>(n, t). \<lparr>name = n, timestamp = t\<rparr>) (or_empty (added d)))"
    by (simp add: apply_delta_def apply_added_def mset_fold_insertSorted)
  show ?thesis
    by (simp add: m multiset.map_comp n)
qed

lemma distinct_names_apply_delta:
  "distinct (map name (apply_delta d xs)) =
   distinct (map name (apply_removed (removed d) xs) @ map fst (or_empty (added d)))"
proof -
  have "mset (map name (apply_delta d xs)) =
        mset (map name (apply_removed (removed d) xs) @ map fst (or_empty (added d)))"
    by (simp only: mset_append mset_names_apply_delta)
  then show ?thesis by (rule mset_eq_imp_distinct_iff)
qed

lemma distinct_names_apply_removed:
  "distinct (map name xs) \<Longrightarrow> distinct (map name (apply_removed rs xs))"
  by (cases rs) (simp_all add: apply_removed_def distinct_map_filter)

lemma distinct_names_fresh:
  "distinct (map name xs) \<Longrightarrow> adds_fresh xs ds \<Longrightarrow> distinct (map name (fold apply_delta ds xs))"
proof (induction ds arbitrary: xs)
  case Nil
  then show ?case by simp
next
  case (Cons d ds)
  let ?kept = "map name (apply_removed (removed d) xs)"
  let ?new = "map fst (or_empty (added d))"
  from Cons.prems have "distinct ?new" and "\<forall>n \<in> set ?new. n \<notin> set ?kept"
    by (simp_all add: list_all_iff)
  then have "distinct ?new" and "set ?kept \<inter> set ?new = {}"
    by blast+
  moreover from Cons.prems have "distinct ?kept"
    by (simp add: distinct_names_apply_removed)
  ultimately have "distinct (map name (apply_delta d xs))"
    by (simp only: distinct_names_apply_delta distinct_append simp_thms)
  moreover from Cons.prems have "adds_fresh (apply_delta d xs) ds" by simp
  ultimately show ?case using Cons.IH by simp
qed

subsection \<open>The store under the event loop\<close>

lemmas handler_defs =
  connect_def closeAndErrorHandler_def keepalive_then_def after_disconnect_def
  after_keepalive_tick_def scheduleReconnect_def reconnect_timer_def scheduleKeepalive_def
  keepalive_timer_def verifyFrontendHash_def removeAuthToken_def on_open_def

lemma store_untouched:
  "images (closeAndErrorHandler st) = images st"
  "dummy_images (closeAndErrorHandler st) = dummy_images st"
  "images (after_disconnect out st) = images st"
  "dummy_images (after_disconnect out st) = dummy_images st"
  "images (after_keepalive_tick out st) = images st"
  "dummy_images (after_keepalive_tick out st) = dummy_images st"
  "images (reconnect_timer st) = images st"
  "dummy_images (reconnect_timer st) = dummy_images st"
  "images (keepalive_timer st) = images st"
  "dummy_images (keepalive_timer st) = dummy_images st"
  "images (on_open st) = images st"
  "dummy_images (on_open st) = []"
  by (simp_all add: handler_defs split: sum.splits)

lemma store_on_message:
  "images (state_after (on_message st (Inr d))) = apply_delta d (dummy_images st)"
  "dummy_images (state_after (on_message st (Inr d))) = apply_delta d (dummy_images st)"
  "state_after (on_message st (Inl e)) = st"
  by (simp_all add: on_message_def Let_def)

lemma descending_step:
  assumes "descending (images st)" and "descending (dummy_images st)"
  shows "descending (images (step st ev)) \<and> descending (dummy_images (step st ev))"
proof (cases ev)
  case (SockMessage s parsed)
  with assms show ?thesis
    by (cases parsed) (simp_all add: step_def handle_def store_on_message descending_apply_delta)
qed (use assms in \<open>simp_all add: step_def handle_def store_untouched split: timer_callback.splits probe_then.splits\<close>)

lemma descending_run:
  "descending (images st) \<Longrightarrow> descending (dummy_images st) \<Longrightarrow>
   descending (images (run st evs)) \<and> descending (dummy_images (run st evs))"
  unfolding run_def
  by (induction evs arbitrary: st) (simp_all add: descending_step)

lemma store_page_load: "images page_load = []" "dummy_images page_load = []"
  by (simp_all add: page_load_def initial_def connect_def)

subsection \<open>The sort invariant\<close>

text \<open>
  Claim C2. Every sequence of delta applications that starts from the empty collection
  leaves a collection sorted by descending timestamp. The same holds at every point of
  every run of the page, whatever the events and their order, for the rendered
  \<open>images\<close> and for the buffer \<open>dummy_images\<close>. Applying
  \<^verbatim>\<open>{added: [ ["b.jpg", 1], ["a.jpg", 3] ]}\<close> to the empty collection gives the order
  \<^verbatim>\<open>["a.jpg", "b.jpg"]\<close>.
\<close>

theorem sort_invariant:
  "descending (fold apply_delta ds []) \<and>
   descending (images (run page_load evs)) \<and>
   descending (dummy_images (run page_load evs)) \<and>
   map name (apply_delta \<lparr>removed = None, added = Some [(''b.jpg'', 1 :: int), (''a.jpg'', 3)]\<rparr> []) =
     [''a.jpg'', ''b.jpg'']"
proof -
  have "descending (fold apply_delta ds [])"
    by (simp add: descending_fold_apply_delta)
  moreover have "descending (images (run page_load evs)) \<and> descending (dummy_images (run page_load evs))"
    by (rule descending_run) (simp_all add: store_page_load)
  moreover have "map name (apply_delta \<lparr>removed = None, added = Some [(''b.jpg'', 1 :: int), (''a.jpg'', 3)]\<rparr> []) =
     [''a.jpg'', ''b.jpg'']"
    by (simp add: apply_delta_def apply_added_def apply_removed_def or_empty_def insertSorted_takeWhile)
  ultimately show ?thesis by simp
qed

theorem sort_invariant_witness:
  "descending (fold apply_delta
     [\<lparr>removed = None, added = Some [(''b.jpg'', 1 :: int), (''a.jpg'', 3)]\<rparr>,
      \<lparr>removed = Some [''a.jpg''], added = Some [(''c.jpg'', 2)]\<rparr>] []) \<and>
   descending (images (run page_load
     [SockOpen 0, SockMessage 0 (Inr \<lparr>removed = None, added = Some [(''b.jpg'', 1 :: int), (''a.jpg'', 3)]\<rparr>)])) \<and>
   descending (dummy_images (run page_load
     [SockOpen 0, SockMessage 0 (Inr \<lparr>removed = None, added = Some [(''b.jpg'', 1 :: int), (''a.jpg'', 3)]\<rparr>)])) \<and>
   map name (apply_delta \<lparr>removed = None, added = Some [(''b.jpg'', 1 :: int), (''a.jpg'', 3)]\<rparr> []) =
     [''a.jpg'', ''b.jpg'']"
  by (rule sort_invariant)

subsection \<open>Names in the store\<close>

text \<open>
  Claim C1, as the script has it. A delta first drops the removed names, then inserts
  every added pair as one new entry at its place in the descending order. An addition
  never replaces an entry: the names of the result are the names kept plus the names
  added, counted with repetitions. So the names stay distinct over a sequence of deltas
  when every delta adds only names that are new to the collection it is applied to.
\<close>

theorem names_after_deltas:
  "mset (map name (apply_delta d xs)) =
     mset (map name (apply_removed (removed d) xs)) + mset (map fst (or_empty (added d))) \<and>
   (descending xs \<longrightarrow> descending (apply_delta d xs)) \<and>
   (distinct (map name ys) \<and> adds_fresh ys ds \<longrightarrow> distinct (map name (fold apply_delta ds ys)))"
  using mset_names_apply_delta [of d xs] descending_apply_delta [of xs d]
    distinct_names_fresh [of ys ds]
  by blast

theorem names_after_deltas_witness:
  "mset (map name (apply_delta \<lparr>removed = Some [''a.jpg''], added = Some [(''a.jpg'', 5 :: int)]\<rparr>
       [\<lparr>name = ''a.jpg'', timestamp = 3\<rparr>, \<lparr>name = ''b.jpg'', timestamp = 1\<rparr>])) =
     {#''b.jpg'', ''a.jpg''#} \<and>
   descending (apply_delta \<lparr>removed = Some [''a.jpg''], added = Some [(''a.jpg'', 5 :: int)]\<rparr>
       [\<lparr>name = ''a.jpg'', timestamp = 3\<rparr>, \<lparr>name = ''b.jpg'', timestamp = 1\<rparr>]) \<and>
   distinct (map name (fold apply_delta
     [\<lparr>removed = None, added = Some [(''b.jpg'', 1 :: int), (''a.jpg'', 3)]\<rparr>,
      \<lparr>removed = Some [''a.jpg''], added = Some [(''a.jpg'', 5)]\<rparr>] []))"
proof -
  let ?d1 = "\<lparr>removed = None, added = Some [(''b.jpg'', 1 :: int), (''a.jpg'', 3)]\<rparr>"
  let ?d2 = "\<lparr>removed = Some [''a.jpg''], added = Some [(''a.jpg'', 5 :: int)]\<rparr>"
  let ?xs = "[\<lparr>name = ''a.jpg'', timestamp = 3 :: int\<rparr>, \<lparr>name = ''b.jpg'', timestamp = 1\<rparr>]"
  have fresh: "distinct (map name ([] :: int item list)) \<and> adds_fresh [] [?d1, ?d2]"
    by (simp add: apply_delta_def apply_added_def apply_removed_def or_empty_def insertSorted_takeWhile)
  have sorted: "descending ?xs" by simp
  from names_after_deltas [where d = ?d2 and xs = ?xs and ys = "[]" and ds = "[?d1, ?d2]"] fresh sorted
  show ?thesis
    by (simp add: apply_removed_def or_empty_def)
qed

text \<open>
  Two messages add \<^verbatim>\<open>a.jpg\<close>, the second with a later timestamp and with no removal:
  the page then shows two entries of that name.
\<close>

theorem readded_name_is_duplicated:
  "map name (images (run page_load
     [SockMessage 0 (Inr \<lparr>removed = None, added = Some [(''a.jpg'', 1 :: int)]\<rparr>),
      SockMessage 0 (Inr \<lparr>removed = None, added = Some [(''a.jpg'', 2)]\<rparr>)])) =
   [''a.jpg'', ''a.jpg'']"
  by (simp add: run_def step_def handle_def page_load_def initial_def connect_def on_message_def
      Let_def apply_delta_def apply_added_def apply_removed_def or_empty_def insertSorted_takeWhile)

subsection \<open>The event loop, one event at a time\<close>

lemma remove_at_last: "remove_at (length xs) (xs @ [x]) = xs"
  by (simp add: remove_at_def)

lemma keepalive_result:
  "keepalive out = Inr (case out of Response status \<Rightarrow> Some status | NetworkFailure \<Rightarrow> None)"
  by (cases out) (simp_all add: keepalive_def await_fetch_status_def)

lemma keepalive_401: "(keepalive out = Inr (Some 401)) = (out = Response 401)"
  by (cases out) (simp_all add: keepalive_result)

lemma after_disconnect_cases:
  "after_disconnect out st = (if out = Response 401 then removeAuthToken st else scheduleReconnect st)"
  by (cases out) (simp_all add: after_disconnect_def keepalive_result)

lemma after_keepalive_tick_cases:
  "after_keepalive_tick out st = (if out = Response 401 then removeAuthToken st else scheduleKeepalive st)"
  by (cases out) (simp_all add: after_keepalive_tick_def keepalive_result)

lemma step_simps:
  "step st (SockOpen s) = (if s < sockets st then on_open st else st)"
  "step st (SockClose s) = (if s < sockets st then closeAndErrorHandler st else st)"
  "step st (SockError s) = (if s < sockets st then closeAndErrorHandler st else st)"
  "step st (SockMessage s parsed) = (if s < sockets st then state_after (on_message st parsed) else st)"
  "step st (TimerFires i) =
     (if i < length (timers st) then
        (case fst (timers st ! i) of
           Reconnect \<Rightarrow> reconnect_timer (st\<lparr>timers := remove_at i (timers st)\<rparr>)
         | KeepaliveTick \<Rightarrow> keepalive_timer (st\<lparr>timers := remove_at i (timers st)\<rparr>))
      else st)"
  "step st (ProbeSettles i out) =
     (if i < length (probes st) then
        (case probes st ! i of
           AfterDisconnect \<Rightarrow> after_disconnect out (st\<lparr>probes := remove_at i (probes st)\<rparr>)
         | AfterKeepaliveTick \<Rightarrow> after_keepalive_tick out (st\<lparr>probes := remove_at i (probes st)\<rparr>))
      else st)"
  by (simp_all add: step_def handle_def)

lemma run_simps:
  "run st [] = st"
  "run st (ev # evs) = run (step st ev) evs"
  "run st (evs @ evs') = run (run st evs) evs'"
  by (simp_all add: run_def)

lemma disconnect_fields:
  assumes "0 < sockets st" and "\<not> connectScheduled st" and "out \<noteq> Response 401"
  shows "timers (disconnect st out) = timers st @ [(Reconnect, reconnectTimeout st)]"
    and "reconnectTimeout (disconnect st out) = min (reconnectTimeout st * 2) maxReconnectTimeout"
    and "connectScheduled (disconnect st out)"
    and "probes (disconnect st out) = probes st"
    and "sockets (disconnect st out) = sockets st"
    and "fetches (disconnect st out) = Suc (fetches st)"
    and "removeAuthToken_calls (disconnect st out) = removeAuthToken_calls st"
    and "\<not> connected (disconnect st out)"
  using assms
  by (simp_all add: disconnect_def run_simps step_simps closeAndErrorHandler_def keepalive_then_def
      remove_at_last after_disconnect_cases scheduleReconnect_def)

lemma failed_reconnect_fields:
  assumes "0 < sockets st" and "\<not> connectScheduled st" and "out \<noteq> Response 401"
  shows "timers (failed_reconnect st out) = timers st"
    and "reconnectTimeout (failed_reconnect st out) = min (reconnectTimeout st * 2) maxReconnectTimeout"
    and "\<not> connectScheduled (failed_reconnect st out)"
    and "probes (failed_reconnect st out) = probes st"
    and "sockets (failed_reconnect st out) = Suc (sockets st)"
    and "ws (failed_reconnect st out) = Some (sockets st)"
  using assms
  by (simp_all add: failed_reconnect_def step_simps disconnect_fields remove_at_last
      reconnect_timer_def connect_def)

lemma failed_reconnects_snoc:
  "failed_reconnects st (outs @ [out]) = failed_reconnect (failed_reconnects st outs) out"
  by (simp add: failed_reconnects_def)

lemma double_capped: "min (min (r * 2 ^ k) m * 2) m = min (r * 2 ^ Suc k) (m :: nat)"
  by (simp add: min_def)

lemma failed_reconnects_fields:
  assumes "0 < sockets st" and "\<not> connectScheduled st"
    and "reconnectTimeout st \<le> maxReconnectTimeout"
    and "\<forall>out \<in> set outs. out \<noteq> Response 401"
  shows "0 < sockets (failed_reconnects st outs) \<and>
         \<not> connectScheduled (failed_reconnects st outs) \<and>
         timers (failed_reconnects st outs) = timers st \<and>
         probes (failed_reconnects st outs) = probes st \<and>
         sockets (failed_reconnects st outs) = sockets st + length outs \<and>
         reconnectTimeout (failed_reconnects st outs) =
           min (reconnectTimeout st * 2 ^ length outs) maxReconnectTimeout"
  using assms(4)
proof (induction outs rule: rev_induct)
  case Nil
  with assms show ?case by (simp add: failed_reconnects_def)
next
  case (snoc out outs)
  let ?st = "failed_reconnects st outs"
  from snoc assms(1) have ih: "0 < sockets ?st" "\<not> connectScheduled ?st" "timers ?st = timers st"
    "probes ?st = probes st" "sockets ?st = sockets st + length outs"
    "reconnectTimeout ?st = min (reconnectTimeout st * 2 ^ length outs) maxReconnectTimeout"
    by simp_all
  from snoc.prems have out: "out \<noteq> Response 401" by simp
  show ?case
    unfolding failed_reconnects_snoc
    using failed_reconnect_fields [OF ih(1) ih(2) out] ih assms(1)
    by (simp add: double_capped)
qed

subsection \<open>Backoff\<close>

text \<open>
  Claim C3. The reconnect delay is a capped exponential backoff with base 500 ms and
  maximum 3000 ms. From a state with the delay at its base and no reconnect pending
  (the state after the page has loaded is one), after \<open>k\<close> failed reconnects in a row
  whose probes did not report 401, the timer the next disconnect sets has the delay
  \<open>min (500 * 2 ^ k) 3000\<close>. An \<^verbatim>\<open>open\<close> event sets the delay back to 500, and the
  timer the next disconnect sets then has the delay 500.
\<close>

theorem backoff_growth_and_reset:
  "(0 < sockets st \<and> \<not> connectScheduled st \<and> reconnectTimeout st = 500 \<and>
    (\<forall>out \<in> set outs. out \<noteq> Response 401) \<and> out \<noteq> Response 401 \<longrightarrow>
      timers (disconnect (failed_reconnects st outs) out) =
        timers st @ [(Reconnect, min (500 * 2 ^ length outs) 3000)]) \<and>
   (s < sockets st' \<longrightarrow> reconnectTimeout (step st' (SockOpen s)) = 500) \<and>
   (s < sockets st' \<and> \<not> connectScheduled st' \<and> out \<noteq> Response 401 \<longrightarrow>
      timers (disconnect (step st' (SockOpen s)) out) =
        timers (step st' (SockOpen s)) @ [(Reconnect, 500)])"
proof (intro conjI impI)
  assume a: "0 < sockets st \<and> \<not> connectScheduled st \<and> reconnectTimeout st = 500 \<and>
    (\<forall>out \<in> set outs. out \<noteq> Response 401) \<and> out \<noteq> Response 401"
  then have le: "reconnectTimeout st \<le> maxReconnectTimeout"
    by (simp add: maxReconnectTimeout_def)
  from a have f: "0 < sockets (failed_reconnects st outs)"
    "\<not> connectScheduled (failed_reconnects st outs)"
    "timers (failed_reconnects st outs) = timers st"
    "reconnectTimeout (failed_reconnects st outs) = min (500 * 2 ^ length outs) 3000"
    using failed_reconnects_fields [of st outs] le by (simp_all add: maxReconnectTimeout_def)
  from a have "out \<noteq> Response 401" by simp
  from disconnect_fields(1) [OF f(1) f(2) this] f(3) f(4)
  show "timers (disconnect (failed_reconnects st outs) out) =
        timers st @ [(Reconnect, min (500 * 2 ^ length outs) 3000)]"
    by simp
next
  assume "s < sockets st'"
  then show "reconnectTimeout (step st' (SockOpen s)) = 500"
    by (simp add: step_simps on_open_def scheduleKeepalive_def verifyFrontendHash_def
        originalReconnectTimeout_def)
next
  assume a: "s < sockets st' \<and> \<not> connectScheduled st' \<and> out \<noteq> Response 401"
  let ?st = "step st' (SockOpen s)"
  from a have o: "0 < sockets ?st" "\<not> connectScheduled ?st" "reconnectTimeout ?st = 500"
    by (simp_all add: step_simps on_open_def scheduleKeepalive_def verifyFrontendHash_def
        originalReconnectTimeout_def)
  from a have "out \<noteq> Response 401" by simp
  from disconnect_fields(1) [OF o(1) o(2) this] o(3)
  show "timers (disconnect ?st out) = timers ?st @ [(Reconnect, 500)]"
    by simp
qed

theorem backoff_growth_and_reset_witness:
  "timers (disconnect (failed_reconnects (page_load :: int client)
       [NetworkFailure, Response 500, Response 200]) NetworkFailure) = [(Reconnect, 3000)] \<and>
   reconnectTimeout (step (failed_reconnects (page_load :: int client) [NetworkFailure]) (SockOpen 1)) = 500 \<and>
   timers (disconnect (step (failed_reconnects (page_load :: int client) [NetworkFailure]) (SockOpen 1))
       (Response 503)) =
     [(KeepaliveTick, 60000), (Reconnect, 500)]"
proof -
  let ?p = "page_load :: int client"
  let ?st' = "failed_reconnects ?p [NetworkFailure]"
  have p: "sockets ?p = 1" "\<not> connectScheduled ?p" "reconnectTimeout ?p = 500" "timers ?p = []"
    by (simp_all add: page_load_def initial_def connect_def originalReconnectTimeout_def)
  have st': "sockets ?st' = 2" "\<not> connectScheduled ?st'" "timers ?st' = []"
    using failed_reconnects_fields [of ?p "[NetworkFailure]"] p
    by (simp_all add: maxReconnectTimeout_def)
  have t: "timers (step ?st' (SockOpen 1)) = [(KeepaliveTick, 60000)]"
    using st' by (simp add: step_simps on_open_def scheduleKeepalive_def verifyFrontendHash_def
        keepaliveInterval_def)
  from backoff_growth_and_reset [where st = ?p and outs = "[NetworkFailure, Response 500, Response 200]"
      and out = NetworkFailure and s = 1 and st' = ?st'] 
    backoff_growth_and_reset [where st = ?p and outs = "[]"
      and out = "Response 503" and s = 1 and st' = ?st'] p st' t
  show ?thesis by simp
qed

subsection \<open>One reconnect at a time\<close>

lemma length_filter_remove_at:
  assumes "i < length xs"
  shows "length (filter P (remove_at i xs)) = length (filter P xs) - (if P (xs ! i) then 1 else 0)"
proof -
  have "length (filter P xs) = length (filter P (take i xs @ xs ! i # drop (Suc i) xs))"
    using assms by (simp only: id_take_nth_drop [symmetric])
  then show ?thesis by (simp add: remove_at_def)
qed

lemma filter_nth_pos: "i < length xs \<Longrightarrow> P (xs ! i) \<Longrightarrow> 0 < length (filter P xs)"
  by (metis filter_empty_conv length_greater_0_conv nth_mem)

lemma flag_matches_timer_step:
  assumes "flag_matches_timer st"
  shows "flag_matches_timer (step st ev)"
proof (cases ev)
  case (SockOpen s)
  with assms show ?thesis
    by (cases "connectScheduled st"; simp add: flag_matches_timer_def reconnects_pending_def step_simps on_open_def
        scheduleKeepalive_def verifyFrontendHash_def)
next
  case (SockClose s)
  with assms show ?thesis
    by (cases "connectScheduled st"; simp add: flag_matches_timer_def reconnects_pending_def step_simps
        closeAndErrorHandler_def keepalive_then_def)
next
  case (SockError s)
  with assms show ?thesis
    by (cases "connectScheduled st"; simp add: flag_matches_timer_def reconnects_pending_def step_simps
        closeAndErrorHandler_def keepalive_then_def)
next
  case (SockMessage s parsed)
  with assms show ?thesis
    by (cases parsed; cases "connectScheduled st")
      (simp_all add: flag_matches_timer_def reconnects_pending_def step_simps on_message_def Let_def)
next
  case (TimerFires i)
  show ?thesis
  proof (cases "i < length (timers st)")
    case False
    with assms TimerFires show ?thesis by (simp add: step_simps)
  next
    case True
    show ?thesis
    proof (cases "fst (timers st ! i)")
      case Reconnect
      with True have "0 < reconnects_pending st"
        unfolding reconnects_pending_def by (intro filter_nth_pos [of i]) simp_all
      with assms have "reconnects_pending st = 1"
        by (simp add: flag_matches_timer_def split: if_splits)
      with True Reconnect TimerFires show ?thesis
        by (simp add: flag_matches_timer_def reconnects_pending_def step_simps
            reconnect_timer_def connect_def length_filter_remove_at)
    next
      case KeepaliveTick
      with True TimerFires assms show ?thesis
        by (cases "connectScheduled st"; simp add: flag_matches_timer_def reconnects_pending_def step_simps
            keepalive_timer_def keepalive_then_def length_filter_remove_at)
    qed
  qed
next
  case (ProbeSettles i out)
  with assms show ?thesis
    by (cases "connectScheduled st"; simp add: flag_matches_timer_def reconnects_pending_def step_simps
        after_disconnect_cases after_keepalive_tick_cases removeAuthToken_def
        scheduleReconnect_def scheduleKeepalive_def split: probe_then.splits)
qed

lemma flag_matches_timer_run: "flag_matches_timer st \<Longrightarrow> flag_matches_timer (run st evs)"
  by (induction evs arbitrary: st) (simp_all add: run_simps flag_matches_timer_step)

lemma flag_matches_timer_page_load: "flag_matches_timer page_load"
  by (simp add: flag_matches_timer_def reconnects_pending_def page_load_def initial_def connect_def)

lemma sockets_step:
  "sockets (step st ev) =
     (if \<exists>i. ev = TimerFires i \<and> i < length (timers st) \<and> fst (timers st ! i) = Reconnect
      then Suc (sockets st) else sockets st)"
proof (cases ev)
  case (SockMessage s parsed)
  then show ?thesis
    by (cases parsed) (simp_all add: step_simps on_message_def Let_def)
next
  case (TimerFires i)
  then show ?thesis
    by (cases "fst (timers st ! i)")
      (simp_all add: step_simps reconnect_timer_def connect_def keepalive_timer_def keepalive_then_def)
next
  case (ProbeSettles i out)
  then show ?thesis
    by (simp add: step_simps after_disconnect_cases after_keepalive_tick_cases removeAuthToken_def
        scheduleReconnect_def scheduleKeepalive_def split: probe_then.splits)
qed (simp_all add: step_simps on_open_def scheduleKeepalive_def verifyFrontendHash_def
      closeAndErrorHandler_def keepalive_then_def)


lemma second_disconnect_schedules_nothing:
  assumes "connectScheduled st" and "i < length (probes st)" and "probes st ! i = AfterDisconnect"
  shows "timers (step st (ProbeSettles i out)) = timers st"
    and "connectScheduled (step st (ProbeSettles i out))"
    and "reconnectTimeout (step st (ProbeSettles i out)) = reconnectTimeout st"
    and "sockets (step st (ProbeSettles i out)) = sockets st"
  using assms
  by (simp_all add: step_simps after_disconnect_cases removeAuthToken_def scheduleReconnect_def)

lemma two_disconnects_one_reconnect:
  assumes "\<not> connectScheduled st" and "s < sockets st" and "s' < sockets st"
    and "ev1 = SockClose s \<or> ev1 = SockError s" and "ev2 = SockClose s' \<or> ev2 = SockError s'"
    and "o1 \<noteq> Response 401" and "o2 \<noteq> Response 401"
  shows "timers (run st [ev1, ev2, ProbeSettles (length (probes st)) o1,
                   ProbeSettles (length (probes st)) o2]) =
           timers st @ [(Reconnect, reconnectTimeout st)]"
    and "sockets (run st [ev1, ev2, ProbeSettles (length (probes st)) o1,
                   ProbeSettles (length (probes st)) o2, TimerFires (length (timers st))]) =
           Suc (sockets st)"
    and "timers (run st [ev1, ev2, ProbeSettles (length (probes st)) o1,
                   ProbeSettles (length (probes st)) o2, TimerFires (length (timers st))]) =
           timers st"
    and "\<not> connectScheduled (run st [ev1, ev2, ProbeSettles (length (probes st)) o1,
                   ProbeSettles (length (probes st)) o2, TimerFires (length (timers st))])"
proof -
  let ?st1 = "closeAndErrorHandler (closeAndErrorHandler st)"
  from assms have r: "run st [ev1, ev2] = ?st1"
    by (auto simp: run_simps step_simps closeAndErrorHandler_def keepalive_then_def)
  have p: "probes ?st1 = probes st @ [AfterDisconnect, AfterDisconnect]"
    "timers ?st1 = timers st" "connectScheduled ?st1 = connectScheduled st"
    "reconnectTimeout ?st1 = reconnectTimeout st" "sockets ?st1 = sockets st"
    by (simp_all add: closeAndErrorHandler_def keepalive_then_def)
  let ?n = "length (probes st)"
  have rm: "remove_at ?n (probes st @ [AfterDisconnect, AfterDisconnect]) = probes st @ [AfterDisconnect]"
    by (simp add: remove_at_def)
  let ?st2 = "step ?st1 (ProbeSettles ?n o1)"
  from assms p rm have s2: "probes ?st2 = probes st @ [AfterDisconnect]"
    "timers ?st2 = timers st @ [(Reconnect, reconnectTimeout st)]" "connectScheduled ?st2"
    "sockets ?st2 = sockets st"
    by (simp_all add: step_simps nth_append after_disconnect_cases scheduleReconnect_def)
  let ?st3 = "step ?st2 (ProbeSettles ?n o2)"
  from s2 have s3: "timers ?st3 = timers st @ [(Reconnect, reconnectTimeout st)]"
    "connectScheduled ?st3" "sockets ?st3 = sockets st"
    by (simp_all add: second_disconnect_schedules_nothing)
  have e: "run st [ev1, ev2, ProbeSettles ?n o1, ProbeSettles ?n o2] = ?st3"
    using r by (simp add: run_simps)
  have e': "run st [ev1, ev2, ProbeSettles ?n o1, ProbeSettles ?n o2, TimerFires (length (timers st))] =
        step ?st3 (TimerFires (length (timers st)))"
    using r by (simp add: run_simps)
  show "timers (run st [ev1, ev2, ProbeSettles ?n o1, ProbeSettles ?n o2]) =
           timers st @ [(Reconnect, reconnectTimeout st)]"
    by (simp only: e s3)
  show "sockets (run st [ev1, ev2, ProbeSettles ?n o1, ProbeSettles ?n o2, TimerFires (length (timers st))]) =
           Suc (sockets st)"
    unfolding e' using s3 by (simp add: step_simps reconnect_timer_def connect_def)
  show "timers (run st [ev1, ev2, ProbeSettles ?n o1, ProbeSettles ?n o2, TimerFires (length (timers st))]) =
           timers st"
    unfolding e' using s3 by (simp add: step_simps reconnect_timer_def connect_def remove_at_last)
  show "\<not> connectScheduled (run st [ev1, ev2, ProbeSettles ?n o1, ProbeSettles ?n o2,
      TimerFires (length (timers st))])"
    unfolding e' using s3 by (simp add: step_simps reconnect_timer_def connect_def)
qed

text \<open>
  Claim C5, as the script has it. At every point of every run of the page at most one
  reconnect timer is pending, and \<^verbatim>\<open>connectScheduled\<close> tells whether there is one. A
  socket is constructed by the firing of a reconnect timer and by nothing else. The
  guard is read when a probe settles, not when the event arrives: a disconnect whose
  probe settles while a reconnect is scheduled sets no timer and leaves the delay alone.
  When two \<^verbatim>\<open>close\<close> or \<^verbatim>\<open>error\<close> events arrive and both their probes settle before
  the timer fires, one timer is pending, and its firing constructs exactly one socket
  and leaves no reconnect pending.
\<close>

theorem single_pending_reconnect:
  "reconnects_pending (run page_load evs) = (if connectScheduled (run page_load evs) then 1 else 0) \<and>
   reconnects_pending (run page_load evs) \<le> 1 \<and>
   sockets (step st ev) =
     (if \<exists>i. ev = TimerFires i \<and> i < length (timers st) \<and> fst (timers st ! i) = Reconnect
      then Suc (sockets st) else sockets st) \<and>
   (connectScheduled st \<and> i < length (probes st) \<and> probes st ! i = AfterDisconnect \<longrightarrow>
      timers (step st (ProbeSettles i out)) = timers st \<and>
      connectScheduled (step st (ProbeSettles i out)) \<and>
      reconnectTimeout (step st (ProbeSettles i out)) = reconnectTimeout st) \<and>
   (\<not> connectScheduled st \<and> s < sockets st \<and> s' < sockets st \<and>
    (ev1 = SockClose s \<or> ev1 = SockError s) \<and> (ev2 = SockClose s' \<or> ev2 = SockError s') \<and>
    o1 \<noteq> Response 401 \<and> o2 \<noteq> Response 401 \<longrightarrow>
      timers (run st [ev1, ev2, ProbeSettles (length (probes st)) o1,
                      ProbeSettles (length (probes st)) o2]) =
        timers st @ [(Reconnect, reconnectTimeout st)] \<and>
      sockets (run st [ev1, ev2, ProbeSettles (length (probes st)) o1,
                       ProbeSettles (length (probes st)) o2, TimerFires (length (timers st))]) =
        Suc (sockets st) \<and>
      timers (run st [ev1, ev2, ProbeSettles (length (probes st)) o1,
                      ProbeSettles (length (probes st)) o2, TimerFires (length (timers st))]) =
        timers st \<and>
      \<not> connectScheduled (run st [ev1, ev2, ProbeSettles (length (probes st)) o1,
                      ProbeSettles (length (probes st)) o2, TimerFires (length (timers st))]))"
proof -
  have inv: "flag_matches_timer (run page_load evs)"
    by (simp add: flag_matches_timer_run flag_matches_timer_page_load)
  then have a: "reconnects_pending (run page_load evs) = (if connectScheduled (run page_load evs) then 1 else 0)"
    by (simp only: flag_matches_timer_def)
  then have b: "reconnects_pending (run page_load evs) \<le> 1"
    by simp
  note c = sockets_step [of st ev]
  have d: "connectScheduled st \<and> i < length (probes st) \<and> probes st ! i = AfterDisconnect \<longrightarrow>
      timers (step st (ProbeSettles i out)) = timers st \<and>
      connectScheduled (step st (ProbeSettles i out)) \<and>
      reconnectTimeout (step st (ProbeSettles i out)) = reconnectTimeout st"
    by (simp add: second_disconnect_schedules_nothing)
  from a b c d two_disconnects_one_reconnect [of st s s' ev1 ev2 o1 o2]
  show ?thesis by blast
qed

theorem single_pending_reconnect_witness:
  "reconnects_pending (run (page_load :: int client)
     [SockError 0, SockClose 0, ProbeSettles 0 NetworkFailure, ProbeSettles 0 NetworkFailure]) = 1 \<and>
   sockets (step (page_load :: int client) (SockClose 0)) = 1 \<and>
   timers (step (run (page_load :: int client) [SockError 0, SockClose 0, ProbeSettles 0 NetworkFailure])
     (ProbeSettles 0 NetworkFailure)) = [(Reconnect, 500)] \<and>
   timers (run (page_load :: int client)
     [SockError 0, SockClose 0, ProbeSettles 0 NetworkFailure, ProbeSettles 0 NetworkFailure]) =
     [(Reconnect, 500)] \<and>
   sockets (run (page_load :: int client)
     [SockError 0, SockClose 0, ProbeSettles 0 NetworkFailure, ProbeSettles 0 NetworkFailure,
      TimerFires 0]) = 2"
proof -
  let ?p = "page_load :: int client"
  let ?st = "run ?p [SockError 0, SockClose 0, ProbeSettles 0 NetworkFailure]"
  have p: "\<not> connectScheduled ?p" "sockets ?p = 1" "probes ?p = []" "timers ?p = []"
    "reconnectTimeout ?p = 500"
    by (simp_all add: page_load_def initial_def connect_def originalReconnectTimeout_def)
  have st: "connectScheduled ?st" "probes ?st = [AfterDisconnect]" "timers ?st = [(Reconnect, 500)]"
    using p by (simp_all add: run_simps step_simps closeAndErrorHandler_def keepalive_then_def
        after_disconnect_cases scheduleReconnect_def remove_at_def)
  have c: "connectScheduled (run ?p [SockError 0, SockClose 0, ProbeSettles 0 NetworkFailure,
      ProbeSettles 0 NetworkFailure])"
    using p by (simp add: run_simps step_simps closeAndErrorHandler_def keepalive_then_def
        after_disconnect_cases scheduleReconnect_def remove_at_def)
  note t1 = single_pending_reconnect [where evs = "[SockError 0, SockClose 0, ProbeSettles 0 NetworkFailure,
        ProbeSettles 0 NetworkFailure] :: int event list" and st = ?st and ev = "SockClose 0" and i = 0
        and out = NetworkFailure and s = 0 and s' = 0 and ?ev1.0 = "SockError 0" and ?ev2.0 = "SockClose 0"
        and ?o1.0 = NetworkFailure and ?o2.0 = NetworkFailure]
  note t2 = single_pending_reconnect [where evs = "[] :: int event list" and st = ?p and ev = "SockClose 0" and i = 0
        and out = NetworkFailure and s = 0 and s' = 0 and ?ev1.0 = "SockError 0" and ?ev2.0 = "SockClose 0"
        and ?o1.0 = NetworkFailure and ?o2.0 = NetworkFailure]
  have g1: "reconnects_pending (run ?p [SockError 0, SockClose 0, ProbeSettles 0 NetworkFailure,
      ProbeSettles 0 NetworkFailure]) = 1"
    using t1 [THEN conjunct1] c by simp
  have g2: "sockets (step ?p (SockClose 0)) = 1"
    using t2 [THEN conjunct2, THEN conjunct2, THEN conjunct1] p by simp
  have g3: "timers (step ?st (ProbeSettles 0 NetworkFailure)) = [(Reconnect, 500)]"
    using t1 [THEN conjunct2, THEN conjunct2, THEN conjunct2, THEN conjunct1] st by simp
  have g4: "timers (run ?p [SockError 0, SockClose 0, ProbeSettles 0 NetworkFailure,
      ProbeSettles 0 NetworkFailure]) = [(Reconnect, 500)]"
    using t2 [THEN conjunct2, THEN conjunct2, THEN conjunct2, THEN conjunct2] p by simp
  have g5: "sockets (run ?p [SockError 0, SockClose 0, ProbeSettles 0 NetworkFailure,
      ProbeSettles 0 NetworkFailure, TimerFires 0]) = 2"
    using t2 [THEN conjunct2, THEN conjunct2, THEN conjunct2, THEN conjunct2] p by simp
  from g1 g2 g3 g4 g5 show ?thesis by blast
qed

text \<open>
  Two runs in which the second probe settles after the timer of the first has fired.
  In the first, \<^verbatim>\<open>error\<close> and \<^verbatim>\<open>close\<close> both arrive before any timer is set, and two
  sockets are constructed after them. In the second, the \<^verbatim>\<open>close\<close> event arrives while
  the reconnect of the \<^verbatim>\<open>error\<close> event is scheduled, and its probe sets a second timer
  all the same.
\<close>

theorem late_probe_schedules_again:
  "sockets (page_load :: int client) = 1 \<and>
   sockets (run (page_load :: int client)
     [SockError 0, SockClose 0, ProbeSettles 0 NetworkFailure, TimerFires 0,
      ProbeSettles 0 NetworkFailure, TimerFires 0]) = 3 \<and>
   timers (run (page_load :: int client) [SockError 0, ProbeSettles 0 NetworkFailure]) =
     [(Reconnect, 500)] \<and>
   timers (run (page_load :: int client)
     [SockError 0, ProbeSettles 0 NetworkFailure, SockClose 0, TimerFires 0,
      ProbeSettles 0 NetworkFailure]) = [(Reconnect, 1000)]"
  by (simp add: run_simps step_simps page_load_def initial_def connect_def closeAndErrorHandler_def
      keepalive_then_def after_disconnect_cases scheduleReconnect_def reconnect_timer_def
      remove_at_def originalReconnectTimeout_def maxReconnectTimeout_def)

subsection \<open>A disconnect\<close>

text \<open>
  Claim C4, as the script has it. Every \<^verbatim>\<open>close\<close> and every \<^verbatim>\<open>error\<close> event of a socket
  clears \<^verbatim>\<open>connected\<close> and issues exactly one probe, and sets no timer by itself. When the
  probe settles with status 401, \<^verbatim>\<open>removeAuthToken\<close> is called exactly once and no timer
  is set. When it settles with anything else and no reconnect is scheduled, exactly one
  reconnect timer is set, with the current delay, and the delay is doubled up to 3000.
  When it settles with anything else and a reconnect is scheduled already, nothing is
  set and the delay stays.
\<close>

theorem disconnect_episode:
  "(s < sockets st \<and> (ev = SockClose s \<or> ev = SockError s) \<longrightarrow>
      fetches (step st ev) = Suc (fetches st) \<and>
      probes (step st ev) = probes st @ [AfterDisconnect] \<and>
      \<not> connected (step st ev) \<and>
      timers (step st ev) = timers st \<and>
      removeAuthToken_calls (step st ev) = removeAuthToken_calls st) \<and>
   (i < length (probes st) \<and> probes st ! i = AfterDisconnect \<longrightarrow>
      fetches (step st (ProbeSettles i out)) = fetches st \<and>
      (out = Response 401 \<longrightarrow>
         removeAuthToken_calls (step st (ProbeSettles i out)) = Suc (removeAuthToken_calls st) \<and>
         timers (step st (ProbeSettles i out)) = timers st) \<and>
      (out \<noteq> Response 401 \<and> \<not> connectScheduled st \<longrightarrow>
         removeAuthToken_calls (step st (ProbeSettles i out)) = removeAuthToken_calls st \<and>
         timers (step st (ProbeSettles i out)) = timers st @ [(Reconnect, reconnectTimeout st)] \<and>
         reconnectTimeout (step st (ProbeSettles i out)) = min (reconnectTimeout st * 2) 3000) \<and>
      (out \<noteq> Response 401 \<and> connectScheduled st \<longrightarrow>
         removeAuthToken_calls (step st (ProbeSettles i out)) = removeAuthToken_calls st \<and>
         timers (step st (ProbeSettles i out)) = timers st \<and>
         reconnectTimeout (step st (ProbeSettles i out)) = reconnectTimeout st))"
proof -
  have a: "s < sockets st \<and> (ev = SockClose s \<or> ev = SockError s) \<longrightarrow>
      fetches (step st ev) = Suc (fetches st) \<and>
      probes (step st ev) = probes st @ [AfterDisconnect] \<and>
      \<not> connected (step st ev) \<and>
      timers (step st ev) = timers st \<and>
      removeAuthToken_calls (step st ev) = removeAuthToken_calls st"
    by (auto simp: step_simps closeAndErrorHandler_def keepalive_then_def)
  have b: "i < length (probes st) \<and> probes st ! i = AfterDisconnect \<longrightarrow>
      fetches (step st (ProbeSettles i out)) = fetches st \<and>
      (out = Response 401 \<longrightarrow>
         removeAuthToken_calls (step st (ProbeSettles i out)) = Suc (removeAuthToken_calls st) \<and>
         timers (step st (ProbeSettles i out)) = timers st) \<and>
      (out \<noteq> Response 401 \<and> \<not> connectScheduled st \<longrightarrow>
         removeAuthToken_calls (step st (ProbeSettles i out)) = removeAuthToken_calls st \<and>
         timers (step st (ProbeSettles i out)) = timers st @ [(Reconnect, reconnectTimeout st)] \<and>
         reconnectTimeout (step st (ProbeSettles i out)) = min (reconnectTimeout st * 2) 3000) \<and>
      (out \<noteq> Response 401 \<and> connectScheduled st \<longrightarrow>
         removeAuthToken_calls (step st (ProbeSettles i out)) = removeAuthToken_calls st \<and>
         timers (step st (ProbeSettles i out)) = timers st \<and>
         reconnectTimeout (step st (ProbeSettles i out)) = reconnectTimeout st)"
    by (simp add: step_simps after_disconnect_cases removeAuthToken_def scheduleReconnect_def
        maxReconnectTimeout_def)
  from a b show ?thesis by (rule conjI)
qed

lemmas concrete_defs =
  run_simps step_simps page_load_def initial_def connect_def closeAndErrorHandler_def
  keepalive_then_def after_disconnect_cases after_keepalive_tick_cases scheduleReconnect_def
  scheduleKeepalive_def reconnect_timer_def keepalive_timer_def on_open_def verifyFrontendHash_def
  removeAuthToken_def remove_at_def originalReconnectTimeout_def maxReconnectTimeout_def
  keepaliveInterval_def on_message_def Let_def apply_delta_def apply_added_def apply_removed_def
  or_empty_def insertSorted_takeWhile

theorem disconnect_episode_witness:
  "fetches (step (page_load :: int client) (SockError 0)) = 1 \<and>
   probes (step (page_load :: int client) (SockError 0)) = [AfterDisconnect] \<and>
   removeAuthToken_calls (run (page_load :: int client) [SockClose 0, ProbeSettles 0 (Response 401)]) = 1 \<and>
   timers (run (page_load :: int client) [SockClose 0, ProbeSettles 0 (Response 401)]) = [] \<and>
   timers (run (page_load :: int client) [SockClose 0, ProbeSettles 0 (Response 500)]) = [(Reconnect, 500)] \<and>
   reconnectTimeout (run (page_load :: int client) [SockClose 0, ProbeSettles 0 (Response 500)]) = 1000 \<and>
   timers (run (page_load :: int client)
     [SockError 0, SockClose 0, ProbeSettles 0 (Response 500), ProbeSettles 0 (Response 500)]) =
     [(Reconnect, 500)]"
proof -
  let ?p = "page_load :: int client"
  let ?c = "step ?p (SockClose 0)"
  let ?ec = "run ?p [SockError 0, SockClose 0, ProbeSettles 0 (Response 500)]"
  have p: "sockets ?p = 1" "fetches ?p = 0" "probes ?p = []"
    by (simp_all add: concrete_defs)
  have c: "probes ?c = [AfterDisconnect]" "\<not> connectScheduled ?c" "removeAuthToken_calls ?c = 0"
    "timers ?c = []" "reconnectTimeout ?c = 500"
    by (simp_all add: concrete_defs)
  have ec: "probes ?ec = [AfterDisconnect]" "connectScheduled ?ec" "timers ?ec = [(Reconnect, 500)]"
    by (simp_all add: concrete_defs)
  note t1 = disconnect_episode [where st = ?p and s = 0 and ev = "SockError 0", THEN conjunct1]
  note t2 = disconnect_episode [where st = ?c and i = 0 and out = "Response 401", THEN conjunct2]
  note t3 = disconnect_episode [where st = ?c and i = 0 and out = "Response 500", THEN conjunct2]
  note t4 = disconnect_episode [where st = ?ec and i = 0 and out = "Response 500", THEN conjunct2]
  have g1: "fetches (step ?p (SockError 0)) = 1 \<and> probes (step ?p (SockError 0)) = [AfterDisconnect]"
    using t1 p by simp
  have g2: "removeAuthToken_calls (run ?p [SockClose 0, ProbeSettles 0 (Response 401)]) = 1 \<and>
      timers (run ?p [SockClose 0, ProbeSettles 0 (Response 401)]) = []"
    using t2 c by (simp add: run_simps)
  have g3: "timers (run ?p [SockClose 0, ProbeSettles 0 (Response 500)]) = [(Reconnect, 500)] \<and>
      reconnectTimeout (run ?p [SockClose 0, ProbeSettles 0 (Response 500)]) = 1000"
    using t3 c by (simp add: run_simps)
  have "run ?p [SockError 0, SockClose 0, ProbeSettles 0 (Response 500), ProbeSettles 0 (Response 500)] =
      step ?ec (ProbeSettles 0 (Response 500))"
    by (simp add: run_simps)
  then have g4: "timers (run ?p
      [SockError 0, SockClose 0, ProbeSettles 0 (Response 500), ProbeSettles 0 (Response 500)]) =
      [(Reconnect, 500)]"
    using t4 ec by simp
  from g1 g2 g3 g4 show ?thesis by blast
qed

text \<open>
  A connection that fails delivers \<^verbatim>\<open>error\<close> and then \<^verbatim>\<open>close\<close>: two probes are issued
  for the one loss, and the second probe, settling while the reconnect of the first is
  pending, sets no timer.
\<close>

theorem second_event_of_a_disconnect:
  "fetches (run (page_load :: int client) [SockError 0, SockClose 0]) = 2 \<and>
   timers (run (page_load :: int client) [SockError 0, SockClose 0, ProbeSettles 0 (Response 500)]) =
     [(Reconnect, 500)] \<and>
   probes (run (page_load :: int client) [SockError 0, SockClose 0, ProbeSettles 0 (Response 500)]) =
     [AfterDisconnect] \<and>
   timers (run (page_load :: int client)
     [SockError 0, SockClose 0, ProbeSettles 0 (Response 500), ProbeSettles 0 (Response 500)]) =
     [(Reconnect, 500)]"
  by (simp add: concrete_defs)

subsection \<open>A message that is not JSON\<close>

text \<open>
  Claim C6, as the script has it. On a frame that \<^verbatim>\<open>JSON.parse\<close> rejects, the message
  listener changes nothing: the item collection, the connection state and everything
  else stay as they were, and the next event is handled from the same state. The error
  is not caught: it leaves the listener.
\<close>

theorem malformed_message_is_thrown:
  "s < sockets st \<longrightarrow>
     handle st (SockMessage s (Inl err)) = Thrown err st \<and> step st (SockMessage s (Inl err)) = st"
  by (simp add: step_def handle_def on_message_def)

theorem malformed_message_is_thrown_witness:
  "handle (page_load :: int client) (SockMessage 0 (Inl SyntaxError)) = Thrown SyntaxError page_load \<and>
   step (page_load :: int client) (SockMessage 0 (Inl SyntaxError)) = page_load"
proof -
  have "0 < sockets (page_load :: int client)"
    by (simp add: page_load_def connect_def initial_def)
  with malformed_message_is_thrown [of 0 "page_load :: int client" SyntaxError]
  show ?thesis by blast
qed

text \<open>On an open connection, a frame that is not JSON makes the listener throw.\<close>

theorem syntax_error_leaves_the_listener:
  "handle (run (page_load :: int client) [SockOpen 0]) (SockMessage 0 (Inl SyntaxError)) =
     Thrown SyntaxError (run page_load [SockOpen 0])"
  by (simp add: handle_def on_message_def run_simps step_simps page_load_def connect_def initial_def
      on_open_def scheduleKeepalive_def verifyFrontendHash_def)

subsection \<open>The keepalive loop\<close>

lemma closed_step:
  assumes "\<not> connected st" and "\<not> is_open ev"
  shows "keepalive_timers (step st ev) \<le> keepalive_timers st \<and> \<not> connected (step st ev)"
proof (cases ev)
  case (SockOpen s)
  with assms show ?thesis by simp
next
  case (SockClose s)
  with assms show ?thesis
    by (simp add: keepalive_timers_def step_simps closeAndErrorHandler_def keepalive_then_def)
next
  case (SockError s)
  with assms show ?thesis
    by (simp add: keepalive_timers_def step_simps closeAndErrorHandler_def keepalive_then_def)
next
  case (SockMessage s parsed)
  with assms show ?thesis
    by (cases parsed) (simp_all add: keepalive_timers_def step_simps on_message_def Let_def)
next
  case (TimerFires i)
  with assms show ?thesis
    by (cases "fst (timers st ! i)")
      (simp_all add: keepalive_timers_def step_simps reconnect_timer_def connect_def
        keepalive_timer_def keepalive_then_def length_filter_remove_at)
next
  case (ProbeSettles i out)
  with assms show ?thesis
    by (simp add: keepalive_timers_def step_simps after_disconnect_cases after_keepalive_tick_cases
        removeAuthToken_def scheduleReconnect_def scheduleKeepalive_def split: probe_then.splits)
qed

lemma closed_run:
  "\<not> connected st \<Longrightarrow> list_all (\<lambda>ev. \<not> is_open ev) evs \<Longrightarrow>
   keepalive_timers (run st evs) \<le> keepalive_timers st \<and> \<not> connected (run st evs)"
proof (induction evs arbitrary: st)
  case Nil
  then show ?case by (simp add: run_simps)
next
  case (Cons ev evs)
  from Cons.prems have s: "keepalive_timers (step st ev) \<le> keepalive_timers st" "\<not> connected (step st ev)"
    using closed_step [of st ev] by simp_all
  from Cons.prems have "list_all (\<lambda>ev. \<not> is_open ev) evs" by simp
  from Cons.IH [OF s(2) this] s(1) show ?case
    by (simp add: run_simps)
qed

text \<open>
  Claim C7, as the script has it. \<^verbatim>\<open>scheduleKeepalive\<close> sets a timer only while
  \<^verbatim>\<open>connected\<close> holds. So from a state that is not connected, and for as long as no
  \<^verbatim>\<open>open\<close> event arrives, the connection stays not connected and the number of pending
  keepalive timers never grows, whatever else happens.
\<close>

theorem keepalive_not_renewed_while_closed:
  "(\<not> connected st \<longrightarrow> scheduleKeepalive st = st) \<and>
   (\<not> connected st \<and> list_all (\<lambda>ev. \<not> is_open ev) evs \<longrightarrow>
      keepalive_timers (run st evs) \<le> keepalive_timers st \<and> \<not> connected (run st evs))"
  using closed_run [of st evs] by (simp add: scheduleKeepalive_def)

theorem keepalive_not_renewed_while_closed_witness:
  "scheduleKeepalive (step (step (page_load :: int client) (SockOpen 0)) (SockClose 0)) =
     step (step page_load (SockOpen 0)) (SockClose 0) \<and>
   keepalive_timers (run (step (step (page_load :: int client) (SockOpen 0)) (SockClose 0))
     [ProbeSettles 0 NetworkFailure, TimerFires 0, ProbeSettles 0 (Response 200), TimerFires 0]) \<le> 1"
proof -
  let ?st = "step (step (page_load :: int client) (SockOpen 0)) (SockClose 0)"
  have c: "\<not> connected ?st" "keepalive_timers ?st = 1"
    by (simp_all add: concrete_defs keepalive_timers_def)
  have l: "list_all (\<lambda>ev :: int event. \<not> is_open ev)
      [ProbeSettles 0 NetworkFailure, TimerFires 0, ProbeSettles 0 (Response 200), TimerFires 0]"
    by simp
  from keepalive_not_renewed_while_closed [where st = ?st and
      evs = "[ProbeSettles 0 NetworkFailure, TimerFires 0, ProbeSettles 0 (Response 200), TimerFires 0]"]
    c l
  show ?thesis by simp
qed

text \<open>
  The connection opens and closes, and the reconnect attempt that follows does not open.
  The keepalive timer set at the \<^verbatim>\<open>open\<close> is still pending; when it fires, a probe is
  issued although \<^verbatim>\<open>connected\<close> is false.
\<close>

theorem keepalive_timer_survives_close:
  "\<not> connected (run (page_load :: int client)
     [SockOpen 0, SockClose 0, ProbeSettles 0 NetworkFailure, TimerFires 1]) \<and>
   timers (run (page_load :: int client)
     [SockOpen 0, SockClose 0, ProbeSettles 0 NetworkFailure, TimerFires 1]) =
     [(KeepaliveTick, 60000)] \<and>
   fetches (run (page_load :: int client)
     [SockOpen 0, SockClose 0, ProbeSettles 0 NetworkFailure, TimerFires 1]) = 1 \<and>
   fetches (run (page_load :: int client)
     [SockOpen 0, SockClose 0, ProbeSettles 0 NetworkFailure, TimerFires 1, TimerFires 0]) = 2 \<and>
   \<not> connected (run (page_load :: int client)
     [SockOpen 0, SockClose 0, ProbeSettles 0 NetworkFailure, TimerFires 1, TimerFires 0])"
  by (simp add: concrete_defs)

subsection \<open>Events of a replaced socket\<close>

lemma sockets_mono_step: "sockets st \<le> sockets (step st ev)"
  by (simp add: sockets_step)

lemma sockets_mono_run: "sockets st \<le> sockets (run st evs)"
proof (induction evs arbitrary: st)
  case Nil
  show ?case by (simp add: run_simps)
next
  case (Cons ev evs)
  have "sockets st \<le> sockets (step st ev)" by (rule sockets_mono_step)
  also have "\<dots> \<le> sockets (run (step st ev) evs)" by (rule Cons.IH)
  finally show ?case by (simp add: run_simps)
qed

text \<open>
  Claim C8, as the script has it. \<^verbatim>\<open>connect()\<close> detaches nothing. The listeners of every
  socket constructed so far stay attached for the rest of the run, and none of them looks
  at the socket that delivers the event: an \<^verbatim>\<open>open\<close>, \<^verbatim>\<open>close\<close>, \<^verbatim>\<open>error\<close> or
  \<^verbatim>\<open>message\<close> event of an old socket is handled exactly as the same event of the
  current one.
\<close>

theorem listeners_ignore_the_socket:
  "(s < sockets st \<and> s' < sockets st \<longrightarrow>
      handle st (SockOpen s) = handle st (SockOpen s') \<and>
      handle st (SockClose s) = handle st (SockClose s') \<and>
      handle st (SockError s) = handle st (SockError s') \<and>
      handle st (SockMessage s parsed) = handle st (SockMessage s' parsed)) \<and>
   (s < sockets st \<longrightarrow> s < sockets (run st evs))"
proof -
  have "sockets st \<le> sockets (run st evs)" by (rule sockets_mono_run)
  then show ?thesis by (auto simp: handle_def)
qed

theorem listeners_ignore_the_socket_witness:
  "handle (run (page_load :: int client) [SockClose 0, ProbeSettles 0 NetworkFailure, TimerFires 0])
     (SockMessage 0 (Inr \<lparr>removed = None, added = Some [(''a.jpg'', 1)]\<rparr>)) =
   handle (run (page_load :: int client) [SockClose 0, ProbeSettles 0 NetworkFailure, TimerFires 0])
     (SockMessage 1 (Inr \<lparr>removed = None, added = Some [(''a.jpg'', 1)]\<rparr>)) \<and>
   0 < sockets (run (page_load :: int client) [SockClose 0, ProbeSettles 0 NetworkFailure, TimerFires 0])"
proof -
  let ?p = "page_load :: int client"
  let ?st = "run ?p [SockClose 0, ProbeSettles 0 NetworkFailure, TimerFires 0]"
  have p: "0 < sockets ?p" by (simp add: concrete_defs)
  have st: "sockets ?st = 2" by (simp add: concrete_defs)
  note t1 = listeners_ignore_the_socket [where st = ?st and s = 0 and s' = 1
      and parsed = "Inr \<lparr>removed = None, added = Some [(''a.jpg'', 1)]\<rparr>", THEN conjunct1]
  note t2 = listeners_ignore_the_socket [where st = ?p and s = 0
      and evs = "[SockClose 0, ProbeSettles 0 NetworkFailure, TimerFires 0]", THEN conjunct2]
  from t1 st t2 p show ?thesis by simp
qed

text \<open>
  A run in which socket 1 is replaced while it is open: socket 0 fails with \<^verbatim>\<open>error\<close>
  and \<^verbatim>\<open>close\<close>, the first probe settles and its timer creates socket 1, which opens;
  then the second probe settles, no reconnect is pending any more, and its timer creates
  socket 2. With socket 2 in \<^verbatim>\<open>ws\<close>, a message of socket 1 still changes the images,
  and a \<^verbatim>\<open>close\<close> of socket 1 still clears \<^verbatim>\<open>connected\<close>.
\<close>

theorem replaced_socket_still_mutates:
  "ws (run (page_load :: int client)
     [SockError 0, SockClose 0, ProbeSettles 0 NetworkFailure, TimerFires 0, SockOpen 1,
      ProbeSettles 0 NetworkFailure, TimerFires 1, SockOpen 2,
      SockMessage 2 (Inr \<lparr>removed = None, added = Some [(''a.jpg'', 1)]\<rparr>)]) = Some 2 \<and>
   map name (images (run (page_load :: int client)
     [SockError 0, SockClose 0, ProbeSettles 0 NetworkFailure, TimerFires 0, SockOpen 1,
      ProbeSettles 0 NetworkFailure, TimerFires 1, SockOpen 2,
      SockMessage 2 (Inr \<lparr>removed = None, added = Some [(''a.jpg'', 1)]\<rparr>)])) = [''a.jpg''] \<and>
   map name (images (run (page_load :: int client)
     [SockError 0, SockClose 0, ProbeSettles 0 NetworkFailure, TimerFires 0, SockOpen 1,
      ProbeSettles 0 NetworkFailure, TimerFires 1, SockOpen 2,
      SockMessage 2 (Inr \<lparr>removed = None, added = Some [(''a.jpg'', 1)]\<rparr>),
      SockMessage 1 (Inr \<lparr>removed = None, added = Some [(''b.jpg'', 2)]\<rparr>)])) =
     [''b.jpg'', ''a.jpg''] \<and>
   connected (run (page_load :: int client)
     [SockError 0, SockClose 0, ProbeSettles 0 NetworkFailure, TimerFires 0, SockOpen 1,
      ProbeSettles 0 NetworkFailure, TimerFires 1, SockOpen 2,
      SockMessage 2 (Inr \<lparr>removed = None, added = Some [(''a.jpg'', 1)]\<rparr>)]) \<and>
   \<not> connected (run (page_load :: int client)
     [SockError 0, SockClose 0, ProbeSettles 0 NetworkFailure, TimerFires 0, SockOpen 1,
      ProbeSettles 0 NetworkFailure, TimerFires 1, SockOpen 2,
      SockMessage 2 (Inr \<lparr>removed = None, added = Some [(''a.jpg'', 1)]\<rparr>),
      SockClose 1])"
  by (simp add: concrete_defs)

subsection \<open>The probe\<close>

text \<open>
  Claim C9. \<^verbatim>\<open>keepalive()\<close> never throws: it gives the status of the response, or
  \<^verbatim>\<open>null\<close> when the fetch fails. What its two callers do with the result is what the
  specification's three results ask for: status 401 (\<open>Unauthorized\<close>) ends the session,
  status 200 (\<open>Authorized\<close>) and every other status or failure (\<open>Unknown\<close>) go on, to the
  reconnect after a disconnect and to the next keepalive after a tick.
\<close>

theorem probe_is_total_and_three_way:
  "(\<exists>result. keepalive out = Inr result) \<and>
   keepalive (Response status) = Inr (Some status) \<and>
   keepalive NetworkFailure = Inr None \<and>
   spec_liveness (Response 200) = Authorized \<and>
   spec_liveness (Response 401) = Unauthorized \<and>
   (spec_liveness out = Unknown) = (out \<noteq> Response 200 \<and> out \<noteq> Response 401) \<and>
   after_disconnect out st =
     (case spec_decision (spec_liveness out) of
        TerminateSession \<Rightarrow> removeAuthToken st
      | ProceedToReconnect \<Rightarrow> scheduleReconnect st) \<and>
   after_keepalive_tick out st =
     (case spec_decision (spec_liveness out) of
        TerminateSession \<Rightarrow> removeAuthToken st
      | ProceedToReconnect \<Rightarrow> scheduleKeepalive st)"
  by (cases out)
    (simp_all add: keepalive_result after_disconnect_cases after_keepalive_tick_cases
      spec_liveness_def spec_decision_def)

theorem probe_is_total_and_three_way_witness:
  "keepalive (Response 503) = Inr (Some 503) \<and>
   spec_liveness (Response 503) = Unknown \<and>
   after_disconnect (Response 503) (page_load :: int client) = scheduleReconnect page_load \<and>
   after_disconnect (Response 401) (page_load :: int client) = removeAuthToken page_load"
  using probe_is_total_and_three_way [of "Response 503" 503 "page_load :: int client"]
    probe_is_total_and_three_way [of "Response 401" 401 "page_load :: int client"]
  by (simp add: spec_decision_def)

subsection \<open>What the open listener leaves alone\<close>

lemma images_step: "\<not> is_message ev \<Longrightarrow> images (step st ev) = images st"
  by (cases ev) (simp_all add: step_simps store_untouched split: timer_callback.splits probe_then.splits)

lemma dummy_images_step:
  "\<not> is_message ev \<Longrightarrow> dummy_images st = [] \<Longrightarrow> dummy_images (step st ev) = []"
  by (cases ev) (simp_all add: step_simps store_untouched split: timer_callback.splits probe_then.splits)

lemma quiet_run:
  "list_all (\<lambda>ev. \<not> is_message ev) evs \<Longrightarrow>
   images (run st evs) = images st \<and> (dummy_images st = [] \<longrightarrow> dummy_images (run st evs) = [])"
  by (induction evs arbitrary: st) (simp_all add: run_simps images_step dummy_images_step)

text \<open>
  Claim C10. The \<^verbatim>\<open>open\<close> listener empties the buffer \<^verbatim>\<open>dummy_images\<close>, sets
  \<^verbatim>\<open>connected\<close> and puts the delay back to 500. It leaves the other variables alone,
  \<^verbatim>\<open>images\<close>, \<^verbatim>\<open>connectScheduled\<close> and \<^verbatim>\<open>ws\<close>; beyond the variables it calls
  \<^verbatim>\<open>verifyFrontendHash\<close> once and sets one keepalive timer. The images shown before
  stay as they are through every event that is not a message, and the first message
  after the \<^verbatim>\<open>open\<close> replaces them by its delta applied to the empty buffer.
\<close>

theorem open_resets_buffer_only:
  "(s < sockets st \<longrightarrow>
      dummy_images (step st (SockOpen s)) = [] \<and>
      images (step st (SockOpen s)) = images st \<and>
      connected (step st (SockOpen s)) \<and>
      reconnectTimeout (step st (SockOpen s)) = 500 \<and>
      connectScheduled (step st (SockOpen s)) = connectScheduled st \<and>
      ws (step st (SockOpen s)) = ws st \<and>
      probes (step st (SockOpen s)) = probes st \<and>
      sockets (step st (SockOpen s)) = sockets st \<and>
      fetches (step st (SockOpen s)) = fetches st \<and>
      removeAuthToken_calls (step st (SockOpen s)) = removeAuthToken_calls st \<and>
      timers (step st (SockOpen s)) = timers st @ [(KeepaliveTick, 60000)] \<and>
      verifyFrontendHash_calls (step st (SockOpen s)) = Suc (verifyFrontendHash_calls st)) \<and>
   (s < sockets st \<and> s' < sockets st \<and> list_all (\<lambda>ev. \<not> is_message ev) evs \<longrightarrow>
      images (run (step st (SockOpen s)) evs) = images st \<and>
      images (step (run (step st (SockOpen s)) evs) (SockMessage s' (Inr d))) = apply_delta d [])"
proof -
  let ?o = "step st (SockOpen s)"
  have a: "s < sockets st \<longrightarrow>
      dummy_images ?o = [] \<and> images ?o = images st \<and> connected ?o \<and> reconnectTimeout ?o = 500 \<and>
      connectScheduled ?o = connectScheduled st \<and> ws ?o = ws st \<and> probes ?o = probes st \<and>
      sockets ?o = sockets st \<and> fetches ?o = fetches st \<and>
      removeAuthToken_calls ?o = removeAuthToken_calls st \<and>
      timers ?o = timers st @ [(KeepaliveTick, 60000)] \<and>
      verifyFrontendHash_calls ?o = Suc (verifyFrontendHash_calls st)"
    by (simp add: step_simps on_open_def scheduleKeepalive_def verifyFrontendHash_def
        originalReconnectTimeout_def keepaliveInterval_def)
  have b: "images (run ?o evs) = images st \<and>
      images (step (run ?o evs) (SockMessage s' (Inr d))) = apply_delta d []"
    if h: "s < sockets st" "s' < sockets st" "list_all (\<lambda>ev. \<not> is_message ev) evs"
  proof -
    from a h have o: "dummy_images ?o = []" "images ?o = images st" "sockets ?o = sockets st"
      by simp_all
    from quiet_run [OF h(3), of ?o] o
    have q: "images (run ?o evs) = images st" "dummy_images (run ?o evs) = []"
      by simp_all
    have "sockets ?o \<le> sockets (run ?o evs)" by (rule sockets_mono_run)
    with o h have "s' < sockets (run ?o evs)" by simp
    with q show ?thesis by (simp add: step_simps store_on_message)
  qed
  from a b show ?thesis by blast
qed

theorem open_resets_buffer_only_witness:
  "dummy_images (step (run (page_load :: int client)
       [SockMessage 0 (Inr \<lparr>removed = None, added = Some [(''a.jpg'', 3)]\<rparr>)]) (SockOpen 0)) = [] \<and>
   map name (images (run (step (run (page_load :: int client)
       [SockMessage 0 (Inr \<lparr>removed = None, added = Some [(''a.jpg'', 3)]\<rparr>)]) (SockOpen 0))
       [TimerFires 0])) = [''a.jpg''] \<and>
   map name (images (step (run (step (run (page_load :: int client)
       [SockMessage 0 (Inr \<lparr>removed = None, added = Some [(''a.jpg'', 3)]\<rparr>)]) (SockOpen 0))
       [TimerFires 0]) (SockMessage 0 (Inr \<lparr>removed = None, added = Some [(''b.jpg'', 1)]\<rparr>)))) =
     [''b.jpg'']"
proof -
  let ?st = "run (page_load :: int client)
       [SockMessage 0 (Inr \<lparr>removed = None, added = Some [(''a.jpg'', 3)]\<rparr>)]"
  have st: "sockets ?st = 1" "map name (images ?st) = [''a.jpg'']"
    by (simp_all add: concrete_defs)
  have l: "list_all (\<lambda>ev :: int event. \<not> is_message ev) [TimerFires 0]" by simp
  have d: "map name (apply_delta \<lparr>removed = None, added = Some [(''b.jpg'', 1 :: int)]\<rparr> []) = [''b.jpg'']"
    by (simp add: concrete_defs)
  from open_resets_buffer_only [where st = ?st and s = 0 and s' = 0 and evs = "[TimerFires 0]"
      and d = "\<lparr>removed = None, added = Some [(''b.jpg'', 1)]\<rparr>"] st l d
  show ?thesis by simp
qed

end
